theory Spec2Isabelle
  imports Complex_Main
begin

section \<open>American option pricing on a binomial lattice\<close>

text \<open>
  A shallow embedding of \<^verbatim>\<open>binomial_tree\<close> and \<^verbatim>\<open>calculate_greeks\<close> of
  \<^verbatim>\<open>OptionsPriceCalculator.py\<close>.

  Python floats are modelled as the real numbers: \<^verbatim>\<open>math.exp\<close> is \<open>exp\<close>,
  \<^verbatim>\<open>math.sqrt\<close> is \<open>sqrt\<close> on the non-negative reals, \<^verbatim>\<open>x ** j\<close> with a
  non-negative integer \<open>j\<close> is \<open>x ^ j\<close>, and the decimal literals \<^verbatim>\<open>1.01\<close>,
  \<^verbatim>\<open>0.99\<close>, \<^verbatim>\<open>0.01\<close> are the rationals they denote. Rounding, overflow and NaN are
  therefore outside the model: no operation rounds, \<^verbatim>\<open>math.exp\<close> and \<^verbatim>\<open>**\<close> never raise
  \<^verbatim>\<open>OverflowError\<close>, and no value is infinite or NaN. The step count \<open>n\<close> is a Python
  integer, an \<open>int\<close> here. Every exception the arithmetic and the indexing of the source
  can raise on reals is a value of \<open>py_error\<close>.
\<close>

subsection \<open>Errors\<close>

datatype py_error = ZeroDivisionError | ValueError | IndexError

definition bind_err :: "py_error + 'a \<Rightarrow> ('a \<Rightarrow> py_error + 'b) \<Rightarrow> py_error + 'b" where
  "bind_err m f = (case m of Inl e \<Rightarrow> Inl e | Inr x \<Rightarrow> f x)"

text \<open>\<^verbatim>\<open>a / b\<close> on floats raises \<^verbatim>\<open>ZeroDivisionError\<close> when \<open>b\<close> is zero.\<close>

definition py_div :: "real \<Rightarrow> real \<Rightarrow> py_error + real" where
  "py_div a b = (if b = 0 then Inl ZeroDivisionError else Inr (a / b))"

text \<open>\<^verbatim>\<open>math.sqrt(x)\<close> raises \<^verbatim>\<open>ValueError\<close> on a negative argument.\<close>

definition math_sqrt :: "real \<Rightarrow> py_error + real" where
  "math_sqrt x = (if x < 0 then Inl ValueError else Inr (sqrt x))"

text \<open>\<^verbatim>\<open>xs[0]\<close> raises \<^verbatim>\<open>IndexError\<close> on an empty list.\<close>

definition first_value :: "real list \<Rightarrow> py_error + real" where
  "first_value vs = (case vs of [] \<Rightarrow> Inl IndexError | x # _ \<Rightarrow> Inr x)"

text \<open>
  A Python \<^verbatim>\<open>for x in xs: body\<close> whose body updates one variable and may raise:
  the first error ends the loop.
\<close>

fun for_each :: "('a \<Rightarrow> 's \<Rightarrow> py_error + 's) \<Rightarrow> 'a list \<Rightarrow> 's \<Rightarrow> py_error + 's" where
  "for_each body [] s = Inr s"
| "for_each body (x # xs) s = (case body x s of Inl e \<Rightarrow> Inl e | Inr s' \<Rightarrow> for_each body xs s')"

subsection \<open>The lattice pricer\<close>

text \<open>Lines 9 to 12: time step, up factor, down factor, probability of an up movement.\<close>

record lattice =
  dt :: real
  u :: real
  d :: real
  p :: real

definition lattice_params :: "real \<Rightarrow> real \<Rightarrow> real \<Rightarrow> int \<Rightarrow> py_error + lattice" where
  "lattice_params T r sigma n =
     bind_err (py_div T (real_of_int n)) (\<lambda>dt.
     bind_err (math_sqrt dt) (\<lambda>root.
     let u = exp (sigma * root) in
     bind_err (py_div 1 u) (\<lambda>d.
     bind_err (py_div (exp (r * dt) - d) (u - d)) (\<lambda>p.
     Inr \<lparr>dt = dt, u = u, d = d, p = p\<rparr>))))"

text \<open>Line 15: \<^verbatim>\<open>[S * (u ** j) * (d ** (n - j)) for j in range(n + 1)]\<close>.\<close>

definition stock_prices :: "real \<Rightarrow> lattice \<Rightarrow> int \<Rightarrow> real list" where
  "stock_prices S L n = map (\<lambda>j. S * u L ^ j * d L ^ (nat n - j)) [0..<nat (n + 1)]"

text \<open>Lines 18 to 21: only the string \<^verbatim>\<open>"call"\<close> selects the call payoff.\<close>

definition option_values :: "string \<Rightarrow> real \<Rightarrow> real list \<Rightarrow> real list" where
  "option_values option_type K prices =
     (if option_type = ''call'' then map (\<lambda>price. max (price - K) 0) prices
      else map (\<lambda>price. max (K - price) 0) prices)"

text \<open>
  Lines 26 to 30, the body of the inner loop at node \<open>(i, j)\<close>. Reading
  \<^verbatim>\<open>option_values[j + 1]\<close> or writing \<^verbatim>\<open>option_values[j]\<close> outside the list raises
  \<^verbatim>\<open>IndexError\<close>.
\<close>

definition node_update ::
  "real \<Rightarrow> real \<Rightarrow> real \<Rightarrow> lattice \<Rightarrow> string \<Rightarrow> nat \<Rightarrow> nat \<Rightarrow> real list \<Rightarrow> py_error + real list" where
  "node_update S K r L option_type i j vs =
     (if j + 1 < length vs then
        let stock_price = S * u L ^ j * d L ^ (i - j) in
        Inr (vs[j := max (exp (- r * dt L) * (p L * vs ! (j + 1) + (1 - p L) * vs ! j))
                         (if option_type = ''call'' then stock_price - K else K - stock_price)])
      else Inl IndexError)"

text \<open>Line 25: \<^verbatim>\<open>for j in range(i + 1)\<close>.\<close>

definition depth_pass ::
  "real \<Rightarrow> real \<Rightarrow> real \<Rightarrow> lattice \<Rightarrow> string \<Rightarrow> nat \<Rightarrow> real list \<Rightarrow> py_error + real list" where
  "depth_pass S K r L option_type i vs =
     for_each (node_update S K r L option_type i) [0..<i + 1] vs"

text \<open>Line 24: \<^verbatim>\<open>for i in range(n - 1, -1, -1)\<close>, empty when \<open>n \<le> 0\<close>.\<close>

definition backward_induction ::
  "real \<Rightarrow> real \<Rightarrow> real \<Rightarrow> lattice \<Rightarrow> string \<Rightarrow> int \<Rightarrow> real list \<Rightarrow> py_error + real list" where
  "backward_induction S K r L option_type n vs =
     for_each (depth_pass S K r L option_type) (rev [0..<nat n]) vs"

text \<open>Lines 8 to 32; line 32 returns \<^verbatim>\<open>option_values[0]\<close>.\<close>

definition binomial_tree ::
  "real \<Rightarrow> real \<Rightarrow> real \<Rightarrow> real \<Rightarrow> real \<Rightarrow> int \<Rightarrow> string \<Rightarrow> py_error + real" where
  "binomial_tree S K T r sigma n option_type =
     bind_err (lattice_params T r sigma n) (\<lambda>L.
     bind_err (backward_induction S K r L option_type n
                 (option_values option_type K (stock_prices S L n)))
              first_value)"

subsection \<open>The intermediate states of the backward pass\<close>

text \<open>
  The list \<^verbatim>\<open>option_values\<close> at the moment when the outer loop has finished the depths
  \<open>n - 1, \<dots>, i + 1\<close> and the inner loop at depth \<open>i\<close> has run for \<open>j = 0, \<dots>, k - 1\<close>.
  With \<open>i = n - 1\<close> and \<open>k = 0\<close> it is the list of terminal payoffs; with \<open>i = 0\<close> and
  \<open>k = 1\<close> it is the list whose first element is returned.
\<close>

definition backward_state ::
  "real \<Rightarrow> real \<Rightarrow> real \<Rightarrow> real \<Rightarrow> real \<Rightarrow> int \<Rightarrow> string \<Rightarrow> nat \<Rightarrow> nat \<Rightarrow> py_error + real list" where
  "backward_state S K T r sigma n option_type i k =
     bind_err (lattice_params T r sigma n) (\<lambda>L.
     bind_err (for_each (depth_pass S K r L option_type) (rev [Suc i..<nat n])
                 (option_values option_type K (stock_prices S L n)))
              (for_each (node_update S K r L option_type i) [0..<k]))"

subsection \<open>The sensitivity estimator\<close>

text \<open>
  \<^verbatim>\<open>calculate_greeks\<close> calls \<^verbatim>\<open>binomial_tree\<close> several times. To count the calls the
  model threads a log through the function: each invocation appends its arguments to
  the log, and an exception ends the computation with the log as it stands.
\<close>

text \<open>An invocation is recorded as the tuple of its seven arguments.\<close>

type_synonym pricer_call = "real \<times> real \<times> real \<times> real \<times> real \<times> int \<times> string"

type_synonym 'a traced = "pricer_call list \<Rightarrow> pricer_call list \<times> (py_error + 'a)"

definition bind_traced :: "'a traced \<Rightarrow> ('a \<Rightarrow> 'b traced) \<Rightarrow> 'b traced" where
  "bind_traced m f = (\<lambda>calls. case m calls of
       (calls', Inl e) \<Rightarrow> (calls', Inl e)
     | (calls', Inr x) \<Rightarrow> f x calls')"

definition untraced :: "py_error + 'a \<Rightarrow> 'a traced" where
  "untraced x = (\<lambda>calls. (calls, x))"

definition invoke :: "real \<Rightarrow> real \<Rightarrow> real \<Rightarrow> real \<Rightarrow> real \<Rightarrow> int \<Rightarrow> string \<Rightarrow> real traced" where
  "invoke S K T r sigma n option_type =
     (\<lambda>calls. (calls @ [(S, K, T, r, sigma, n, option_type)],
            binomial_tree S K T r sigma n option_type))"

text \<open>
  Lines 36 to 67, statement by statement: \<open>invoke\<close> is a call of \<^verbatim>\<open>binomial_tree\<close>,
  \<open>py_div\<close> is a float division. The quotient of delta is taken before the first call
  for gamma, so a zero spot raises after two invocations. The local \<^verbatim>\<open>dt = 1/365\<close> of
  line 56 is the one-day step of theta, and theta is divided by \<open>365\<close> a second time on
  line 60. The tuple of line 67 is returned in the order delta, gamma, vega, theta, rho.
\<close>

definition calculate_greeks_traced ::
  "real \<Rightarrow> real \<Rightarrow> real \<Rightarrow> real \<Rightarrow> real \<Rightarrow> int \<Rightarrow> string
     \<Rightarrow> (real \<times> real \<times> real \<times> real \<times> real) traced" where
  "calculate_greeks_traced S K T r sigma n option_type =
     (let epsilon = 1 / 100;
          S_up = S * (101 / 100);
          S_down = S * (99 / 100) in
      bind_traced (invoke S_up K T r sigma n option_type) (\<lambda>V_up.
      bind_traced (invoke S_down K T r sigma n option_type) (\<lambda>V_down.
      bind_traced (untraced (py_div (V_up - V_down) (S_up - S_down))) (\<lambda>delta.
      bind_traced (invoke (S_up * (101 / 100)) K T r sigma n option_type) (\<lambda>V_up_up.
      bind_traced (untraced (py_div (V_up_up - V_up) (S_up * (101 / 100) - S_up))) (\<lambda>delta_up.
      bind_traced (invoke (S_down * (99 / 100)) K T r sigma n option_type) (\<lambda>V_down_down.
      bind_traced (untraced (py_div (V_down - V_down_down) (S_down - S_down * (99 / 100)))) (\<lambda>delta_down.
      bind_traced (untraced (py_div (delta_up - delta_down) (S_up - S_down))) (\<lambda>gamma.
      bind_traced (invoke S K T r (sigma + epsilon) n option_type) (\<lambda>V_vol_up.
      bind_traced (invoke S K T r (sigma - epsilon) n option_type) (\<lambda>V_vol_down.
      bind_traced (untraced (bind_err (py_div (V_vol_up - V_vol_down) (2 * epsilon))
                                      (\<lambda>q. py_div q 100))) (\<lambda>vega.
      let dt = 1 / 365 in
      bind_traced (invoke S K T r sigma n option_type) (\<lambda>V_current.
      bind_traced (invoke S K (T - dt) r sigma n option_type) (\<lambda>V_T_down.
      bind_traced (untraced (py_div (V_T_down - V_current) dt)) (\<lambda>theta.
      bind_traced (untraced (py_div theta 365)) (\<lambda>theta.
      bind_traced (invoke S K T (r + epsilon) sigma n option_type) (\<lambda>V_r_up.
      bind_traced (invoke S K T (r - epsilon) sigma n option_type) (\<lambda>V_r_down.
      bind_traced (untraced (bind_err (py_div (V_r_up - V_r_down) (2 * epsilon))
                                      (\<lambda>q. py_div q 100))) (\<lambda>rho.
      untraced (Inr (delta, gamma, vega, theta, rho)))))))))))))))))))))"

text \<open>The function itself: the result of the traced run that starts with an empty log.\<close>

definition calculate_greeks ::
  "real \<Rightarrow> real \<Rightarrow> real \<Rightarrow> real \<Rightarrow> real \<Rightarrow> int \<Rightarrow> string
     \<Rightarrow> py_error + (real \<times> real \<times> real \<times> real \<times> real)" where
  "calculate_greeks S K T r sigma n option_type =
     snd (calculate_greeks_traced S K T r sigma n option_type [])"

subsection \<open>The backward induction as the specification words it\<close>

text \<open>
  The specification describes the price as the value at node \<open>(0, 0)\<close> of a recursion
  over the nodes \<open>(i, j)\<close> of the lattice: at depth \<open>n\<close> the terminal payoff, above it
  the larger of the discounted expectation of the two children and the payoff of
  exercising at once. The definitions below follow those words; they are compared with
  \<open>binomial_tree\<close> further down.
\<close>

datatype variant = Call | Put

definition up_factor :: "real \<Rightarrow> real \<Rightarrow> int \<Rightarrow> real" where
  "up_factor T sigma n = exp (sigma * sqrt (T / real_of_int n))"

definition risk_neutral_p :: "real \<Rightarrow> real \<Rightarrow> real \<Rightarrow> int \<Rightarrow> real" where
  "risk_neutral_p T r sigma n =
     (exp (r * (T / real_of_int n)) - 1 / up_factor T sigma n)
       / (up_factor T sigma n - 1 / up_factor T sigma n)"

definition spec_lattice :: "real \<Rightarrow> real \<Rightarrow> real \<Rightarrow> int \<Rightarrow> lattice" where
  "spec_lattice T r sigma n =
     \<lparr>dt = T / real_of_int n, u = up_factor T sigma n, d = 1 / up_factor T sigma n,
      p = risk_neutral_p T r sigma n\<rparr>"

definition exercise_payoff :: "variant \<Rightarrow> real \<Rightarrow> real \<Rightarrow> real" where
  "exercise_payoff var K price = (case var of Call \<Rightarrow> price - K | Put \<Rightarrow> K - price)"

function spec_node ::
  "real \<Rightarrow> real \<Rightarrow> real \<Rightarrow> lattice \<Rightarrow> nat \<Rightarrow> variant \<Rightarrow> nat \<Rightarrow> nat \<Rightarrow> real" where
  "spec_node S K r L n var i j =
     (if n \<le> i then max (exercise_payoff var K (S * u L ^ j * d L ^ (n - j))) 0
      else max (exp (- r * dt L) *
                  (p L * spec_node S K r L n var (Suc i) (Suc j)
                   + (1 - p L) * spec_node S K r L n var (Suc i) j))
               (exercise_payoff var K (S * u L ^ j * d L ^ (i - j))))"
  by pat_completeness auto
termination
  by (relation "measure (\<lambda>(S, K, r, L, n, var, i, j). n - i)") auto

declare spec_node.simps [simp del]

definition spec_price :: "real \<Rightarrow> real \<Rightarrow> real \<Rightarrow> real \<Rightarrow> real \<Rightarrow> int \<Rightarrow> variant \<Rightarrow> real" where
  "spec_price S K T r sigma n var = spec_node S K r (spec_lattice T r sigma n) (nat n) var 0 0"

definition variant_of :: "string \<Rightarrow> variant" where
  "variant_of option_type = (if option_type = ''call'' then Call else Put)"

section \<open>Properties\<close>

subsection \<open>Auxiliary facts\<close>

lemma bind_err_Inr [simp]: "bind_err (Inr x) f = f x"
  by (simp add: bind_err_def)

lemma bind_err_Inl [simp]: "bind_err (Inl e) f = Inl e"
  by (simp add: bind_err_def)

lemma for_each_append:
  "for_each body (xs @ ys) s = bind_err (for_each body xs s) (for_each body ys)"
  by (induction xs arbitrary: s) (auto split: sum.splits)

lemma up_factor_gap:
  assumes "0 < U" "U \<noteq> 1"
  shows "U - 1 / U \<noteq> (0::real)"
proof
  assume "U - 1 / U = 0"
  then have "U * U = 1" using assms by (simp add: field_simps)
  then have "(U - 1) * (U + 1) = 0" by (simp add: algebra_simps)
  then show False using assms by auto
qed

lemma lattice_params_Inr:
  assumes "1 \<le> n" "0 < T" "sigma \<noteq> 0"
  shows "lattice_params T r sigma n = Inr (spec_lattice T r sigma n)"
proof -
  have n0: "real_of_int n \<noteq> 0" and pos: "0 < T / real_of_int n" using assms by simp_all
  then have "sigma * sqrt (T / real_of_int n) \<noteq> 0" using assms by simp
  then have "up_factor T sigma n \<noteq> 1" by (simp add: up_factor_def)
  moreover have "0 < up_factor T sigma n" by (simp add: up_factor_def)
  ultimately have ne: "up_factor T sigma n - 1 / up_factor T sigma n \<noteq> 0"
    by (rule up_factor_gap[rotated])
  have nz: "up_factor T sigma n \<noteq> 0" by (simp add: up_factor_def)
  have "\<not> T / real_of_int n < 0" using pos by simp
  then show ?thesis
    using n0 ne nz
    by (simp add: lattice_params_def py_div_def math_sqrt_def Let_def spec_lattice_def
        risk_neutral_p_def up_factor_def del: of_int_eq_0_iff)
qed

lemma exercise_payoff_variant_of:
  "exercise_payoff (variant_of ot) K x = (if ot = ''call'' then x - K else K - x)"
  by (simp add: exercise_payoff_def variant_of_def)

lemma spec_node_terminal:
  "spec_node S K r L N var N j = max (exercise_payoff var K (S * u L ^ j * d L ^ (N - j))) 0"
  by (subst spec_node.simps) simp

lemma spec_node_interior:
  "i < N \<Longrightarrow> spec_node S K r L N var i j =
     max (exp (- r * dt L) *
            (p L * spec_node S K r L N var (Suc i) (Suc j)
             + (1 - p L) * spec_node S K r L N var (Suc i) j))
         (exercise_payoff var K (S * u L ^ j * d L ^ (i - j)))"
  by (subst spec_node.simps) simp

lemma terminal_values:
  assumes "0 \<le> n"
  shows "length (option_values ot K (stock_prices S L n)) = nat n + 1"
    and "j \<le> nat n \<Longrightarrow> option_values ot K (stock_prices S L n) ! j
           = spec_node S K r L (nat n) (variant_of ot) (nat n) j"
proof -
  have len: "nat (n + 1) = nat n + 1" using assms by simp
  show "length (option_values ot K (stock_prices S L n)) = nat n + 1"
    by (simp add: option_values_def stock_prices_def len)
  assume "j \<le> nat n"
  then have "j < nat (n + 1)" using len by simp
  then show "option_values ot K (stock_prices S L n) ! j
           = spec_node S K r L (nat n) (variant_of ot) (nat n) j"
    by (simp add: option_values_def stock_prices_def spec_node_terminal
        exercise_payoff_variant_of del: upt_Suc)
qed

lemma node_update_in_range:
  assumes "j + 1 < length vs"
  shows "node_update S K r L ot i j vs =
     Inr (vs[j := max (exp (- r * dt L) * (p L * vs ! (j + 1) + (1 - p L) * vs ! j))
                      (exercise_payoff (variant_of ot) K (S * u L ^ j * d L ^ (i - j)))])"
  using assms by (simp add: node_update_def Let_def exercise_payoff_variant_of)

lemma depth_pass_prefix:
  assumes len: "length vs = N + 1" and i: "i < N"
    and below: "\<forall>j\<le>Suc i. vs ! j = spec_node S K r L N (variant_of ot) (Suc i) j"
  shows "k \<le> Suc i \<Longrightarrow>
     \<exists>vs'. for_each (node_update S K r L ot i) [0..<k] vs = Inr vs' \<and> length vs' = N + 1
       \<and> (\<forall>j<k. vs' ! j = spec_node S K r L N (variant_of ot) i j)
       \<and> (\<forall>j\<ge>k. vs' ! j = vs ! j)"
proof (induction k)
  case 0
  then show ?case using len by simp
next
  case (Suc k)
  then obtain vs1 where run: "for_each (node_update S K r L ot i) [0..<k] vs = Inr vs1"
    and len1: "length vs1 = N + 1"
    and done1: "\<forall>j<k. vs1 ! j = spec_node S K r L N (variant_of ot) i j"
    and rest1: "\<forall>j\<ge>k. vs1 ! j = vs ! j"
    by auto
  let ?new = "max (exp (- r * dt L) * (p L * vs1 ! (k + 1) + (1 - p L) * vs1 ! k))
                  (exercise_payoff (variant_of ot) K (S * u L ^ k * d L ^ (i - k)))"
  have k: "k \<le> i" using Suc.prems by simp
  have inr: "k + 1 < length vs1" using k i len1 by simp
  have step: "for_each (node_update S K r L ot i) [0..<Suc k] vs = Inr (vs1[k := ?new])"
    using run node_update_in_range[OF inr] by (simp add: for_each_append)
  have "vs1 ! (k + 1) = spec_node S K r L N (variant_of ot) (Suc i) (Suc k)"
    using rest1 below k by simp
  moreover have "vs1 ! k = spec_node S K r L N (variant_of ot) (Suc i) k"
    using rest1 below k by simp
  ultimately have new: "?new = spec_node S K r L N (variant_of ot) i k"
    using spec_node_interior[OF i] by simp
  have "\<forall>j<Suc k. (vs1[k := ?new]) ! j = spec_node S K r L N (variant_of ot) i j"
    using done1 new inr by (auto simp: nth_list_update less_Suc_eq)
  moreover have "\<forall>j\<ge>Suc k. (vs1[k := ?new]) ! j = vs ! j"
    using rest1 by (auto simp: nth_list_update)
  ultimately show ?case using step len1 by simp
qed

lemma depth_pass_spec:
  assumes "length vs = N + 1" "i < N"
    and "\<forall>j\<le>Suc i. vs ! j = spec_node S K r L N (variant_of ot) (Suc i) j"
  shows "\<exists>vs'. depth_pass S K r L ot i vs = Inr vs' \<and> length vs' = N + 1
       \<and> (\<forall>j\<le>i. vs' ! j = spec_node S K r L N (variant_of ot) i j)"
  using depth_pass_prefix[OF assms, of "Suc i"] by (auto simp: depth_pass_def less_Suc_eq_le)

lemma backward_prefix:
  assumes n: "0 \<le> n"
  shows "i \<le> nat n \<Longrightarrow>
     \<exists>vs. for_each (depth_pass S K r L ot) (rev [i..<nat n])
             (option_values ot K (stock_prices S L n)) = Inr vs
       \<and> length vs = nat n + 1
       \<and> (\<forall>j\<le>i. vs ! j = spec_node S K r L (nat n) (variant_of ot) i j)"
proof (induction "nat n - i" arbitrary: i)
  case 0
  then have "i = nat n" by simp
  then show ?case using terminal_values[OF n] by simp
next
  case (Suc m)
  then have i: "i < nat n" and m: "m = nat n - Suc i" and le: "Suc i \<le> nat n" by simp_all
  from Suc.hyps(1)[OF m le] obtain vs where
    run: "for_each (depth_pass S K r L ot) (rev [Suc i..<nat n])
             (option_values ot K (stock_prices S L n)) = Inr vs"
    and len: "length vs = nat n + 1"
    and vals: "\<forall>j\<le>Suc i. vs ! j = spec_node S K r L (nat n) (variant_of ot) (Suc i) j"
    by blast
  from depth_pass_spec[OF len i vals] obtain vs' where
    pass: "depth_pass S K r L ot i vs = Inr vs'" and len': "length vs' = nat n + 1"
    and vals': "\<forall>j\<le>i. vs' ! j = spec_node S K r L (nat n) (variant_of ot) i j"
    by blast
  have "rev [i..<nat n] = rev [Suc i..<nat n] @ [i]"
    using i by (simp add: upt_conv_Cons)
  then show ?case using run pass len' vals' by (simp add: for_each_append)
qed

lemma backward_induction_spec:
  assumes "0 \<le> n"
  shows "\<exists>vs. backward_induction S K r L ot n (option_values ot K (stock_prices S L n)) = Inr vs
       \<and> length vs = nat n + 1
       \<and> vs ! 0 = spec_node S K r L (nat n) (variant_of ot) 0 0"
  using backward_prefix[OF assms, of 0] by (auto simp: backward_induction_def)

lemma first_value_nth: "vs \<noteq> [] \<Longrightarrow> first_value vs = Inr (vs ! 0)"
  by (cases vs) (simp_all add: first_value_def)

lemma binomial_tree_spec_price:
  assumes "1 \<le> n" "0 < T" "sigma \<noteq> 0"
  shows "binomial_tree S K T r sigma n ot = Inr (spec_price S K T r sigma n (variant_of ot))"
proof -
  have n: "0 \<le> n" using assms by simp
  from backward_induction_spec[OF n, of S K r "spec_lattice T r sigma n" ot]
  obtain vs where "backward_induction S K r (spec_lattice T r sigma n) ot n
      (option_values ot K (stock_prices S (spec_lattice T r sigma n) n)) = Inr vs"
    and "length vs = nat n + 1"
    and "vs ! 0 = spec_node S K r (spec_lattice T r sigma n) (nat n) (variant_of ot) 0 0"
    by blast
  moreover from this have "vs \<noteq> []" by auto
  ultimately show ?thesis
    by (simp add: binomial_tree_def lattice_params_Inr[OF assms] first_value_nth spec_price_def)
qed

lemma binomial_tree_fails:
  assumes "n < 1 \<or> T \<le> 0 \<or> sigma = 0"
  shows "isl (binomial_tree S K T r sigma n ot)"
proof (cases "lattice_params T r sigma n")
  case (Inl e)
  then show ?thesis by (simp add: binomial_tree_def)
next
  case (Inr L)
  then have n0: "n \<noteq> 0" and dt: "0 \<le> T / real_of_int n"
    and gap: "exp (sigma * sqrt (T / real_of_int n)) - 1 / exp (sigma * sqrt (T / real_of_int n)) \<noteq> 0"
    by (auto simp: lattice_params_def py_div_def math_sqrt_def Let_def bind_err_def
        split: if_splits sum.splits)
  from gap have "sigma * sqrt (T / real_of_int n) \<noteq> 0" by auto
  then have s: "sigma \<noteq> 0" and T0: "T \<noteq> 0" by auto
  have neg: "n < 0"
  proof (rule ccontr)
    assume "\<not> n < 0"
    with n0 have n1: "1 \<le> n" by simp
    with assms s T0 have "T < 0" by auto
    moreover have "0 < real_of_int n" using n1 by simp
    ultimately have "T / real_of_int n < 0" by (simp add: divide_neg_pos)
    with dt show False by simp
  qed
  then have "stock_prices S L n = []" and "nat n = 0" by (simp_all add: stock_prices_def)
  then show ?thesis
    using Inr by (simp add: binomial_tree_def backward_induction_def option_values_def first_value_def)
qed

lemma binomial_tree_isl_iff:
  "isl (binomial_tree S K T r sigma n ot) \<longleftrightarrow> n < 1 \<or> T \<le> 0 \<or> sigma = 0"
proof
  assume "isl (binomial_tree S K T r sigma n ot)"
  then show "n < 1 \<or> T \<le> 0 \<or> sigma = 0"
    using binomial_tree_spec_price[of n T sigma S K r ot] by (cases "n < 1 \<or> T \<le> 0 \<or> sigma = 0") auto
qed (rule binomial_tree_fails)

lemma bind_traced_Inr:
  "bind_traced m f l = (l', Inr y) \<longleftrightarrow> (\<exists>l1 x. m l = (l1, Inr x) \<and> f x l1 = (l', Inr y))"
  by (auto simp: bind_traced_def split: prod.splits sum.splits)

lemma invoke_Inr:
  "invoke S K T r sigma n ot l = (l', Inr x) \<longleftrightarrow>
     l' = l @ [(S, K, T, r, sigma, n, ot)] \<and> binomial_tree S K T r sigma n ot = Inr x"
  by (auto simp: invoke_def)

lemma untraced_Inr: "untraced m l = (l', Inr x) \<longleftrightarrow> l' = l \<and> m = Inr x"
  by (auto simp: untraced_def)

lemma py_div_Inr: "py_div a b = Inr q \<longleftrightarrow> b \<noteq> 0 \<and> q = a / b"
  by (auto simp: py_div_def)

lemma bind_err_Inr_iff: "bind_err m f = Inr y \<longleftrightarrow> (\<exists>x. m = Inr x \<and> f x = Inr y)"
  by (cases m) simp_all

lemma calculate_greeks_traced_Inr:
  "calculate_greeks_traced S K T r sigma n ot l = (l', Inr g) \<longleftrightarrow>
   (\<exists>V_up V_down V_up_up V_down_down V_vol_up V_vol_down V_current V_T_down V_r_up V_r_down.
      binomial_tree (S * (101 / 100)) K T r sigma n ot = Inr V_up \<and>
      binomial_tree (S * (99 / 100)) K T r sigma n ot = Inr V_down \<and>
      binomial_tree (S * (101 / 100) * (101 / 100)) K T r sigma n ot = Inr V_up_up \<and>
      binomial_tree (S * (99 / 100) * (99 / 100)) K T r sigma n ot = Inr V_down_down \<and>
      binomial_tree S K T r (sigma + 1 / 100) n ot = Inr V_vol_up \<and>
      binomial_tree S K T r (sigma - 1 / 100) n ot = Inr V_vol_down \<and>
      binomial_tree S K T r sigma n ot = Inr V_current \<and>
      binomial_tree S K (T - 1 / 365) r sigma n ot = Inr V_T_down \<and>
      binomial_tree S K T (r + 1 / 100) sigma n ot = Inr V_r_up \<and>
      binomial_tree S K T (r - 1 / 100) sigma n ot = Inr V_r_down \<and>
      S \<noteq> 0 \<and>
      g = ((V_up - V_down) / (S * (101 / 100) - S * (99 / 100)),
           ((V_up_up - V_up) / (S * (101 / 100) * (101 / 100) - S * (101 / 100))
             - (V_down - V_down_down) / (S * (99 / 100) - S * (99 / 100) * (99 / 100)))
              / (S * (101 / 100) - S * (99 / 100)),
           (V_vol_up - V_vol_down) / (2 * (1 / 100)) / 100,
           (V_T_down - V_current) / (1 / 365) / 365,
           (V_r_up - V_r_down) / (2 * (1 / 100)) / 100) \<and>
      l' = l @ [(S * (101 / 100), K, T, r, sigma, n, ot),
                (S * (99 / 100), K, T, r, sigma, n, ot),
                (S * (101 / 100) * (101 / 100), K, T, r, sigma, n, ot),
                (S * (99 / 100) * (99 / 100), K, T, r, sigma, n, ot),
                (S, K, T, r, sigma + 1 / 100, n, ot),
                (S, K, T, r, sigma - 1 / 100, n, ot),
                (S, K, T, r, sigma, n, ot),
                (S, K, T - 1 / 365, r, sigma, n, ot),
                (S, K, T, r + 1 / 100, sigma, n, ot),
                (S, K, T, r - 1 / 100, sigma, n, ot)])"
  (is "?lhs \<longleftrightarrow> ?rhs")
proof
  assume ?rhs
  then show ?lhs
    by (elim exE conjE)
      (simp add: calculate_greeks_traced_def Let_def bind_traced_def invoke_def untraced_def
        py_div_def)
next
  assume ?lhs
  then show ?rhs
    unfolding calculate_greeks_traced_def Let_def bind_traced_Inr invoke_Inr untraced_Inr
      py_div_Inr bind_err_Inr_iff
    apply (elim exE conjE)
    apply hypsubst
    apply (intro exI conjI; (assumption | rule refl | force))
    done
qed

lemma bind_err_assoc: "bind_err (bind_err m f) g = bind_err m (\<lambda>x. bind_err (f x) g)"
  by (cases m) simp_all

lemma for_each_single: "for_each body [x] s = body x s"
  by (cases "body x s") simp_all

lemma binomial_tree_final_state:
  assumes "1 \<le> n"
  shows "binomial_tree S K T r sigma n ot =
     bind_err (backward_state S K T r sigma n ot 0 1) first_value"
proof -
  have "rev [0..<nat n] = rev [Suc 0..<nat n] @ [0]"
    using assms by (simp add: upt_conv_Cons)
  then show ?thesis
    by (simp add: binomial_tree_def backward_state_def backward_induction_def for_each_append
        for_each_single bind_err_assoc depth_pass_def del: for_each.simps)
qed

lemma for_each_invariant:
  assumes step: "\<And>x s s'. I s \<Longrightarrow> body x s = Inr s' \<Longrightarrow> I s'"
  shows "I s \<Longrightarrow> for_each body xs s = Inr s' \<Longrightarrow> I s'"
proof (induction xs arbitrary: s)
  case Nil
  then show ?case by simp
next
  case (Cons x xs)
  then show ?case by (auto split: sum.splits dest: step)
qed

lemma option_values_nonneg: "list_all (\<lambda>x. 0 \<le> x) (option_values ot K prices)"
  by (simp add: option_values_def list_all_iff)

lemma node_update_nonneg:
  assumes "0 \<le> p L" "p L \<le> 1" "list_all (\<lambda>x. 0 \<le> x) vs"
    and "node_update S K r L ot i j vs = Inr vs'"
  shows "list_all (\<lambda>x. 0 \<le> x) vs'"
proof -
  from assms(4) have j: "j + 1 < length vs"
    and vs': "vs' = vs[j := max (exp (- r * dt L) * (p L * vs ! (j + 1) + (1 - p L) * vs ! j))
                      (exercise_payoff (variant_of ot) K (S * u L ^ j * d L ^ (i - j)))]"
    by (auto simp: node_update_def Let_def exercise_payoff_variant_of split: if_splits)
  have "0 \<le> vs ! (j + 1)" and "0 \<le> vs ! j"
    using assms(3) j by (simp_all add: list_all_length)
  then have "0 \<le> p L * vs ! (j + 1) + (1 - p L) * vs ! j"
    using assms(1,2) by simp
  then have "0 \<le> exp (- r * dt L) * (p L * vs ! (j + 1) + (1 - p L) * vs ! j)"
    by simp
  then have "0 \<le> max (exp (- r * dt L) * (p L * vs ! (j + 1) + (1 - p L) * vs ! j))
                      (exercise_payoff (variant_of ot) K (S * u L ^ j * d L ^ (i - j)))"
    by linarith
  then show ?thesis
    using assms(3) unfolding vs' list_all_iff
    by (auto dest!: subsetD[OF set_update_subset_insert])
qed

lemma depth_steps_nonneg:
  assumes "0 \<le> p L" "p L \<le> 1" "list_all (\<lambda>x. 0 \<le> x) vs"
    and "for_each (node_update S K r L ot i) js vs = Inr vs'"
  shows "list_all (\<lambda>x. 0 \<le> x) vs'"
  using assms(3,4)
  by (rule for_each_invariant[where I = "list_all (\<lambda>x. 0 \<le> x)", rotated])
     (rule node_update_nonneg[OF assms(1,2)])

lemma depth_passes_nonneg:
  assumes "0 \<le> p L" "p L \<le> 1" "list_all (\<lambda>x. 0 \<le> x) vs"
    and "for_each (depth_pass S K r L ot) is vs = Inr vs'"
  shows "list_all (\<lambda>x. 0 \<le> x) vs'"
  using assms(3,4)
  by (rule for_each_invariant[where I = "list_all (\<lambda>x. 0 \<le> x)", rotated])
     (unfold depth_pass_def, rule depth_steps_nonneg[OF assms(1,2)])

lemma backward_state_Inr:
  assumes "1 \<le> n" "0 < T" "sigma \<noteq> 0" "i < nat n" "k \<le> Suc i"
  shows "\<exists>vs. backward_state S K T r sigma n ot i k = Inr vs \<and> length vs = nat n + 1"
proof -
  let ?L = "spec_lattice T r sigma n"
  have n: "0 \<le> n" and le: "Suc i \<le> nat n" using assms by simp_all
  from backward_prefix[OF n le, of S K r ?L ot] obtain vs where
    run: "for_each (depth_pass S K r ?L ot) (rev [Suc i..<nat n])
             (option_values ot K (stock_prices S ?L n)) = Inr vs"
    and len: "length vs = nat n + 1"
    and vals: "\<forall>j\<le>Suc i. vs ! j = spec_node S K r ?L (nat n) (variant_of ot) (Suc i) j"
    by blast
  from depth_pass_prefix[OF len assms(4) vals assms(5)] obtain vs' where
    "for_each (node_update S K r ?L ot i) [0..<k] vs = Inr vs'" "length vs' = nat n + 1"
    by blast
  then show ?thesis
    using run by (simp add: backward_state_def lattice_params_Inr[OF assms(1-3)])
qed

lemma backward_state_nonneg:
  assumes "1 \<le> n" "0 < T" "sigma \<noteq> 0"
    and "0 \<le> risk_neutral_p T r sigma n" "risk_neutral_p T r sigma n \<le> 1"
    and "backward_state S K T r sigma n ot i k = Inr vs"
  shows "list_all (\<lambda>x. 0 \<le> x) vs"
proof -
  let ?L = "spec_lattice T r sigma n"
  have p: "0 \<le> p ?L" "p ?L \<le> 1" using assms(4,5) by (simp_all add: spec_lattice_def)
  from assms(6) obtain vs0 where
    run: "for_each (depth_pass S K r ?L ot) (rev [Suc i..<nat n])
             (option_values ot K (stock_prices S ?L n)) = Inr vs0"
    and inner: "for_each (node_update S K r ?L ot i) [0..<k] vs0 = Inr vs"
    by (auto simp: backward_state_def lattice_params_Inr[OF assms(1-3)] bind_err_Inr_iff)
  have "list_all (\<lambda>x. 0 \<le> x) vs0"
    using depth_passes_nonneg[OF p option_values_nonneg run] .
  then show ?thesis using depth_steps_nonneg[OF p _ inner] by simp
qed

lemma spec_node_nonneg_root_floor:
  "0 < N \<Longrightarrow> exercise_payoff var K S \<le> spec_node S K r L N var 0 0"
  by (subst spec_node_interior) simp_all

lemma spec_node_mono_call:
  assumes "0 \<le> p L" "p L \<le> 1" "0 \<le> u L" "0 \<le> d L" "S1 \<le> S2"
  shows "spec_node S1 K r L N Call i j \<le> spec_node S2 K r L N Call i j"
proof (induction "N - i" arbitrary: i j)
  case 0
  have "S1 * u L ^ j * d L ^ (N - j) \<le> S2 * u L ^ j * d L ^ (N - j)"
    using assms by (intro mult_right_mono) simp_all
  then show ?case using 0 by (subst (1 2) spec_node.simps) (simp add: exercise_payoff_def)
next
  case (Suc m)
  then have i: "i < N" and m: "m = N - Suc i" by simp_all
  have price: "S1 * u L ^ j * d L ^ (i - j) \<le> S2 * u L ^ j * d L ^ (i - j)"
    using assms by (intro mult_right_mono) simp_all
  have "p L * spec_node S1 K r L N Call (Suc i) (Suc j)
        + (1 - p L) * spec_node S1 K r L N Call (Suc i) j
     \<le> p L * spec_node S2 K r L N Call (Suc i) (Suc j)
        + (1 - p L) * spec_node S2 K r L N Call (Suc i) j"
    using Suc.hyps(1)[OF m] assms(1,2) by (intro add_mono mult_left_mono) simp_all
  then have "exp (- r * dt L) * (p L * spec_node S1 K r L N Call (Suc i) (Suc j)
        + (1 - p L) * spec_node S1 K r L N Call (Suc i) j)
     \<le> exp (- r * dt L) * (p L * spec_node S2 K r L N Call (Suc i) (Suc j)
        + (1 - p L) * spec_node S2 K r L N Call (Suc i) j)"
    by (intro mult_left_mono) simp_all
  moreover have "exercise_payoff Call K (S1 * u L ^ j * d L ^ (i - j))
      \<le> exercise_payoff Call K (S2 * u L ^ j * d L ^ (i - j))"
    using price by (simp add: exercise_payoff_def)
  ultimately show ?case
    unfolding spec_node_interior[OF i] by (rule max.mono)
qed

lemma spec_node_antimono_put:
  assumes "0 \<le> p L" "p L \<le> 1" "0 \<le> u L" "0 \<le> d L" "S1 \<le> S2"
  shows "spec_node S2 K r L N Put i j \<le> spec_node S1 K r L N Put i j"
proof (induction "N - i" arbitrary: i j)
  case 0
  have "S1 * u L ^ j * d L ^ (N - j) \<le> S2 * u L ^ j * d L ^ (N - j)"
    using assms by (intro mult_right_mono) simp_all
  then show ?case using 0 by (subst (1 2) spec_node.simps) (simp add: exercise_payoff_def)
next
  case (Suc m)
  then have i: "i < N" and m: "m = N - Suc i" by simp_all
  have price: "S1 * u L ^ j * d L ^ (i - j) \<le> S2 * u L ^ j * d L ^ (i - j)"
    using assms by (intro mult_right_mono) simp_all
  have "p L * spec_node S2 K r L N Put (Suc i) (Suc j)
        + (1 - p L) * spec_node S2 K r L N Put (Suc i) j
     \<le> p L * spec_node S1 K r L N Put (Suc i) (Suc j)
        + (1 - p L) * spec_node S1 K r L N Put (Suc i) j"
    using Suc.hyps(1)[OF m] assms(1,2) by (intro add_mono mult_left_mono) simp_all
  then have "exp (- r * dt L) * (p L * spec_node S2 K r L N Put (Suc i) (Suc j)
        + (1 - p L) * spec_node S2 K r L N Put (Suc i) j)
     \<le> exp (- r * dt L) * (p L * spec_node S1 K r L N Put (Suc i) (Suc j)
        + (1 - p L) * spec_node S1 K r L N Put (Suc i) j)"
    by (intro mult_left_mono) simp_all
  moreover have "exercise_payoff Put K (S2 * u L ^ j * d L ^ (i - j))
      \<le> exercise_payoff Put K (S1 * u L ^ j * d L ^ (i - j))"
    using price by (simp add: exercise_payoff_def)
  ultimately show ?case
    unfolding spec_node_interior[OF i] by (rule max.mono)
qed

lemma spec_lattice_factors_pos: "0 \<le> u (spec_lattice T r sigma n)" "0 \<le> d (spec_lattice T r sigma n)"
  by (simp_all add: spec_lattice_def up_factor_def)

lemma risk_neutral_p_stable:
  assumes "0 \<le> r" "r \<le> sigma" "0 < sigma" "0 < T" "T \<le> real_of_int n"
  shows "0 \<le> risk_neutral_p T r sigma n" "risk_neutral_p T r sigma n \<le> 1"
proof -
  define h where "h = T / real_of_int n"
  have npos: "0 < real_of_int n" using assms by linarith
  have h: "0 < h" "h \<le> 1" using assms npos by (simp_all add: h_def)
  then have "h * h \<le> h * 1" by (intro mult_left_mono) simp_all
  then have "h\<^sup>2 \<le> h" by (simp add: power2_eq_square)
  then have "h \<le> sqrt h" using h by (metis real_le_rsqrt)
  then have "r * h \<le> sigma * sqrt h"
    using assms h by (intro mult_mono) simp_all
  then have up: "exp (r * h) \<le> exp (sigma * sqrt h)" by simp
  have "0 < sigma * sqrt h" using assms h by simp
  then have gt1: "1 < exp (sigma * sqrt h)" by simp
  have "0 \<le> r * h" using assms h by simp
  then have ge1: "1 \<le> exp (r * h)" by simp
  define U where "U = exp (sigma * sqrt h)"
  have U: "1 < U" "exp (r * h) \<le> U" using gt1 up by (simp_all add: U_def)
  then have inv: "1 / U < 1" by simp
  then have den: "0 < U - 1 / U" using U by linarith
  have eq: "risk_neutral_p T r sigma n = (exp (r * h) - 1 / U) / (U - 1 / U)"
    by (simp add: risk_neutral_p_def up_factor_def h_def U_def)
  show "0 \<le> risk_neutral_p T r sigma n"
    unfolding eq using den ge1 inv by (intro divide_nonneg_pos) linarith+
  show "risk_neutral_p T r sigma n \<le> 1"
    unfolding eq using den U by (simp add: field_simps)
qed

lemma binomial_tree_Inr_iff:
  "(\<exists>x. binomial_tree S K T r sigma n ot = Inr x) \<longleftrightarrow> 1 \<le> n \<and> 0 < T \<and> sigma \<noteq> 0"
  using binomial_tree_isl_iff[of S K T r sigma n ot]
  by (cases "binomial_tree S K T r sigma n ot") auto

lemma calculate_greeks_Inr:
  "calculate_greeks S K T r sigma n ot = Inr g \<longleftrightarrow>
     (\<exists>l'. calculate_greeks_traced S K T r sigma n ot [] = (l', Inr g))"
  unfolding calculate_greeks_def
  by (cases "calculate_greeks_traced S K T r sigma n ot []") simp

lemma calculate_greeks_returns:
  assumes "1 \<le> n" "1 / 365 < T" "S \<noteq> 0" "sigma \<noteq> 0" "sigma \<noteq> 1 / 100" "sigma \<noteq> - (1 / 100)"
  shows "\<exists>g. calculate_greeks S K T r sigma n ot = Inr g"
proof -
  have T: "0 < T" "0 < T - 1 / 365" using assms(2) by simp_all
  have s: "sigma + 1 / 100 \<noteq> 0" "sigma - 1 / 100 \<noteq> 0" using assms(5,6) by auto
  note bt = binomial_tree_spec_price[OF assms(1)]
  show ?thesis
    unfolding calculate_greeks_Inr calculate_greeks_traced_Inr
    using bt[OF T(1) assms(4)] bt[OF T(2) assms(4)] bt[OF T(1) s(1)] bt[OF T(1) s(2)] assms(3)
    by simp
qed

lemma calculate_greeks_returns_iff:
  "(\<exists>g. calculate_greeks S K T r sigma n ot = Inr g) \<longleftrightarrow>
     1 \<le> n \<and> 1 / 365 < T \<and> S \<noteq> 0 \<and> sigma \<noteq> 0 \<and> sigma \<noteq> 1 / 100 \<and> sigma \<noteq> - (1 / 100)"
proof
  assume "\<exists>g. calculate_greeks S K T r sigma n ot = Inr g"
  then obtain V1 V2 V3 V4 where
    "binomial_tree S K T r (sigma + 1 / 100) n ot = Inr V1"
    "binomial_tree S K T r (sigma - 1 / 100) n ot = Inr V2"
    "binomial_tree S K T r sigma n ot = Inr V3"
    "binomial_tree S K (T - 1 / 365) r sigma n ot = Inr V4"
    and S: "S \<noteq> 0"
    unfolding calculate_greeks_Inr calculate_greeks_traced_Inr by blast
  then have "1 \<le> n \<and> 0 < T \<and> sigma + 1 / 100 \<noteq> 0" "1 \<le> n \<and> 0 < T \<and> sigma - 1 / 100 \<noteq> 0"
    "1 \<le> n \<and> 0 < T \<and> sigma \<noteq> 0" "1 \<le> n \<and> 0 < T - 1 / 365 \<and> sigma \<noteq> 0"
    using binomial_tree_Inr_iff by blast+
  then show "1 \<le> n \<and> 1 / 365 < T \<and> S \<noteq> 0 \<and> sigma \<noteq> 0 \<and> sigma \<noteq> 1 / 100 \<and> sigma \<noteq> - (1 / 100)"
    using S by auto
next
  assume "1 \<le> n \<and> 1 / 365 < T \<and> S \<noteq> 0 \<and> sigma \<noteq> 0 \<and> sigma \<noteq> 1 / 100 \<and> sigma \<noteq> - (1 / 100)"
  then show "\<exists>g. calculate_greeks S K T r sigma n ot = Inr g"
    using calculate_greeks_returns by blast
qed







lemma calculate_greeks_isl_iff:
  "isl (calculate_greeks S K T r sigma n ot) \<longleftrightarrow>
     \<not> (1 \<le> n \<and> 1 / 365 < T \<and> S \<noteq> 0 \<and> sigma \<noteq> 0 \<and> sigma \<noteq> 1 / 100 \<and> sigma \<noteq> - (1 / 100))"
  using calculate_greeks_returns_iff[of S K T r sigma n ot]
  by (cases "calculate_greeks S K T r sigma n ot") auto

lemma calculate_greeks_trace:
  assumes "calculate_greeks_traced S K T r sigma n ot [] = (calls, Inr g)"
  shows "calls = [(S * (101 / 100), K, T, r, sigma, n, ot),
                (S * (99 / 100), K, T, r, sigma, n, ot),
                (S * (101 / 100) * (101 / 100), K, T, r, sigma, n, ot),
                (S * (99 / 100) * (99 / 100), K, T, r, sigma, n, ot),
                (S, K, T, r, sigma + 1 / 100, n, ot),
                (S, K, T, r, sigma - 1 / 100, n, ot),
                (S, K, T, r, sigma, n, ot),
                (S, K, T - 1 / 365, r, sigma, n, ot),
                (S, K, T, r + 1 / 100, sigma, n, ot),
                (S, K, T, r - 1 / 100, sigma, n, ot)]"
    and "S \<noteq> 0"
  using assms unfolding calculate_greeks_traced_Inr append_Nil by blast+

lemma calculate_greeks_trace_counts:
  assumes "calculate_greeks_traced S K T r sigma n ot [] = (calls, Inr g)"
  shows "length calls = 10"
    and "length (filter (\<lambda>c. c \<noteq> (S, K, T, r, sigma, n, ot)) calls) = 9"
proof -
  note tr = calculate_greeks_trace[OF assms]
  show "length calls = 10" unfolding tr(1) by simp
  show "length (filter (\<lambda>c. c \<noteq> (S, K, T, r, sigma, n, ot)) calls) = 9"
    unfolding tr(1) using tr(2) by simp
qed

lemma calculate_greeks_traced_returns:
  assumes "1 \<le> n" "1 / 365 < T" "S \<noteq> 0" "sigma \<noteq> 0" "sigma \<noteq> 1 / 100" "sigma \<noteq> - (1 / 100)"
  shows "\<exists>calls g. calculate_greeks_traced S K T r sigma n ot [] = (calls, Inr g)"
  using calculate_greeks_returns[OF assms, of K r ot] unfolding calculate_greeks_Inr by blast

lemma calculate_greeks_values:
  assumes "calculate_greeks S K T r sigma n ot = Inr g"
  obtains V_up V_down V_up_up V_down_down V_vol_up V_vol_down V_current V_T_down V_r_up V_r_down
  where "binomial_tree (S * (101 / 100)) K T r sigma n ot = Inr V_up"
    and "binomial_tree (S * (99 / 100)) K T r sigma n ot = Inr V_down"
    and "binomial_tree (S * (101 / 100) * (101 / 100)) K T r sigma n ot = Inr V_up_up"
    and "binomial_tree (S * (99 / 100) * (99 / 100)) K T r sigma n ot = Inr V_down_down"
    and "binomial_tree S K T r (sigma + 1 / 100) n ot = Inr V_vol_up"
    and "binomial_tree S K T r (sigma - 1 / 100) n ot = Inr V_vol_down"
    and "binomial_tree S K T r sigma n ot = Inr V_current"
    and "binomial_tree S K (T - 1 / 365) r sigma n ot = Inr V_T_down"
    and "binomial_tree S K T (r + 1 / 100) sigma n ot = Inr V_r_up"
    and "binomial_tree S K T (r - 1 / 100) sigma n ot = Inr V_r_down"
    and "S \<noteq> 0"
    and "g = ((V_up - V_down) / (S * (101 / 100) - S * (99 / 100)),
           ((V_up_up - V_up) / (S * (101 / 100) * (101 / 100) - S * (101 / 100))
             - (V_down - V_down_down) / (S * (99 / 100) - S * (99 / 100) * (99 / 100)))
              / (S * (101 / 100) - S * (99 / 100)),
           (V_vol_up - V_vol_down) / (2 * (1 / 100)) / 100,
           (V_T_down - V_current) / (1 / 365) / 365,
           (V_r_up - V_r_down) / (2 * (1 / 100)) / 100)"
  using assms unfolding calculate_greeks_Inr calculate_greeks_traced_Inr by blast

lemma binomial_tree_zero_expiry:
  assumes "n \<noteq> 0"
  shows "binomial_tree S K 0 r sigma n ot = Inl ZeroDivisionError"
  using assms
  by (simp add: binomial_tree_def lattice_params_def py_div_def math_sqrt_def)

lemma binomial_tree_negative_step:
  assumes "T < 0" "0 < n"
  shows "binomial_tree S K T r sigma n ot = Inl ValueError"
proof -
  have "T / real_of_int n < 0" using assms by (simp add: divide_neg_pos)
  moreover have "real_of_int n \<noteq> 0" using assms by simp
  ultimately show ?thesis
    by (simp add: binomial_tree_def lattice_params_def py_div_def math_sqrt_def
        del: of_int_eq_0_iff)
qed

lemma one_step_price:
  assumes "sigma \<noteq> 0"
  shows "binomial_tree S K 1 r sigma 1 ot =
     Inr (max (exp (- r) *
                (risk_neutral_p 1 r sigma 1
                   * max (exercise_payoff (variant_of ot) K (S * exp sigma)) 0
                 + (1 - risk_neutral_p 1 r sigma 1)
                   * max (exercise_payoff (variant_of ot) K (S * (1 / exp sigma))) 0))
              (exercise_payoff (variant_of ot) K S))"
proof -
  have "binomial_tree S K 1 r sigma 1 ot = Inr (spec_price S K 1 r sigma 1 (variant_of ot))"
    using assms by (intro binomial_tree_spec_price) simp_all
  moreover have "spec_node S K r (spec_lattice 1 r sigma 1) (Suc 0) var (Suc 0) j =
      max (exercise_payoff var K (S * u (spec_lattice 1 r sigma 1) ^ j
             * d (spec_lattice 1 r sigma 1) ^ (Suc 0 - j))) 0" for var j
    by (rule spec_node_terminal)
  ultimately show ?thesis
    by (simp add: spec_price_def spec_node_interior spec_lattice_def up_factor_def)
qed

lemma exp_one_bounds: "2 \<le> exp (1::real)" "exp (1::real) \<le> 3"
proof -
  show "2 \<le> exp (1::real)" using exp_ge_add_one_self[of "1::real"] by simp
  show "exp (1::real) \<le> 3" by (rule exp_le)
qed

lemma exp_two: "exp (2::real) = exp 1 * exp 1"
  using exp_add[of "1::real" 1] by simp

lemma put_price_high_rate:
  assumes "1 \<le> S * exp 1" "S \<le> exp 1"
  shows "binomial_tree S 1 1 2 1 1 ''put''
       = Inr (max ((S - exp 1) / (exp 1 * (exp 1 + 1))) (1 - S))"
proof -
  define E where "E = exp (1::real)"
  have E: "2 \<le> E" using exp_one_bounds(1) by (simp add: E_def)
  have p: "risk_neutral_p 1 2 1 1 = (E * E - 1 / E) / (E - 1 / E)"
    by (simp add: risk_neutral_p_def up_factor_def exp_two E_def)
  have disc: "exp (- 2 :: real) = 1 / (E * E)"
    by (simp add: exp_minus exp_two E_def inverse_eq_divide)
  have up: "max (1 - S * E) 0 = 0" using assms(1) by (simp add: E_def)
  have "S / E \<le> 1" using assms(2) E by (simp add: E_def)
  then have down: "max (1 - S * (1 / E)) 0 = 1 - S / E" by simp
  have "2 * E \<le> E * E" using E by (intro mult_right_mono) simp_all
  then have "E * E \<noteq> 1" using E by linarith
  then have nz: "E \<noteq> 0" "E + 1 \<noteq> 0" "E \<noteq> 1" "E * E \<noteq> 1" using E by simp_all
  have q: "1 - (E * E - 1 / E) / (E - 1 / E) = - (E * E) / (E + 1)"
    using nz by (simp add: divide_simps) (simp add: algebra_simps)
  have "1 / (E * E) * (- (E * E) / (E + 1) * (1 - S / E)) = (S - E) / (E * (E + 1))"
    using nz by (simp add: divide_simps)
  then have cont: "exp (- 2) * (risk_neutral_p 1 2 1 1 * max (1 - S * E) 0
      + (1 - risk_neutral_p 1 2 1 1) * max (1 - S * (1 / E)) 0) = (S - E) / (E * (E + 1))"
    unfolding p disc up down q by simp
  have "binomial_tree S 1 1 2 1 1 ''put'' =
     Inr (max (exp (- 2) * (risk_neutral_p 1 2 1 1 * max (1 - S * E) 0
      + (1 - risk_neutral_p 1 2 1 1) * max (1 - S * (1 / E)) 0)) (1 - S))"
    unfolding E_def
    by (subst one_step_price) (simp_all add: exercise_payoff_def variant_of_def)
  then have "binomial_tree S 1 1 2 1 1 ''put''
       = Inr (max ((S - E) / (E * (E + 1))) (1 - S))"
    by (simp only: cont)
  then show ?thesis by (simp only: E_def)
qed

lemma call_price_negative_rate:
  assumes "1 \<le> S * exp 1" "S \<le> exp 1"
  shows "binomial_tree S 1 1 (- 2) 1 1 ''call''
       = Inr (max (- (exp 1 * (S * exp 1 - 1)) / (exp 1 + 1)) (S - 1))"
proof -
  define E where "E = exp (1::real)"
  have E: "2 \<le> E" using exp_one_bounds(1) by (simp add: E_def)
  have p: "risk_neutral_p 1 (- 2) 1 1 = (1 / (E * E) - 1 / E) / (E - 1 / E)"
    by (simp add: risk_neutral_p_def up_factor_def exp_minus exp_two E_def inverse_eq_divide)
  have disc: "exp (- (- 2) :: real) = E * E"
    by (simp add: exp_two E_def)
  have up: "max (S * E - 1) 0 = S * E - 1" using assms(1) by (simp add: E_def)
  have "S / E \<le> 1" using assms(2) E by (simp add: E_def)
  then have down: "max (S * (1 / E) - 1) 0 = 0" by simp
  have "2 * E \<le> E * E" using E by (intro mult_right_mono) simp_all
  then have "E * E \<noteq> 1" using E by linarith
  then have nz: "E \<noteq> 0" "E + 1 \<noteq> 0" "E \<noteq> 1" "E * E \<noteq> 1" using E by simp_all
  have q: "E * E * ((1 / (E * E) - 1 / E) / (E - 1 / E) * (S * E - 1))
      = - (E * (S * E - 1)) / (E + 1)"
    using nz by (simp add: divide_simps) (simp add: algebra_simps)
  have cont: "exp (- (- 2)) * (risk_neutral_p 1 (- 2) 1 1 * max (S * E - 1) 0
      + (1 - risk_neutral_p 1 (- 2) 1 1) * max (S * (1 / E) - 1) 0)
      = - (E * (S * E - 1)) / (E + 1)"
    unfolding p disc up down using q by simp
  have "binomial_tree S 1 1 (- 2) 1 1 ''call'' =
     Inr (max (exp (- (- 2)) * (risk_neutral_p 1 (- 2) 1 1 * max (S * E - 1) 0
      + (1 - risk_neutral_p 1 (- 2) 1 1) * max (S * (1 / E) - 1) 0)) (S - 1))"
    unfolding E_def
    by (subst one_step_price) (simp_all add: exercise_payoff_def variant_of_def)
  then have "binomial_tree S 1 1 (- 2) 1 1 ''call''
       = Inr (max (- (E * (S * E - 1)) / (E + 1)) (S - 1))"
    by (simp only: cont)
  then show ?thesis by (simp only: E_def)
qed




subsection \<open>Identities of the real-number model\<close>

text \<open>
  The next three facts hold in the model, where no operation rounds. The program computes
  in doubles. There the quotient \<open>(x / (1/365)) / 365\<close> need not be \<open>x\<close>, the difference
  \<open>1.01 S - 0.99 S\<close> need not be \<open>0.02 S\<close>, and with a risk-neutral probability outside
  \<open>[0, 1]\<close> the rounding errors of the backward pass are multiplied by about
  \<open>\<bar>p\<bar> + \<bar>1 - p\<bar>\<close> at every depth, so that the list can come to hold infinities and NaN.
  The three facts therefore describe the program up to rounding only. Nothing below
  depends on them.
\<close>

text \<open>Whenever the model of the pricer returns, the value is at least the exercise payoff
  at the root.\<close>

lemma root_floor_over_reals:
  assumes "binomial_tree S K T r sigma n ot = Inr x"
  shows "(ot = ''call'' \<longrightarrow> S - K \<le> x) \<and> (ot \<noteq> ''call'' \<longrightarrow> K - S \<le> x)"
proof -
  from assms have ok: "1 \<le> n" "0 < T" "sigma \<noteq> 0"
    using binomial_tree_Inr_iff[of S K T r sigma n ot] by auto
  then have "x = spec_node S K r (spec_lattice T r sigma n) (nat n) (variant_of ot) 0 0"
    using assms binomial_tree_spec_price[OF ok, of S K r ot] by (simp add: spec_price_def)
  moreover have "0 < nat n" using ok by simp
  ultimately have "exercise_payoff (variant_of ot) K S \<le> x"
    using spec_node_nonneg_root_floor by simp
  then show ?thesis by (simp add: exercise_payoff_variant_of split: if_splits)
qed

text \<open>Theta is the difference of the two prices divided by \<open>1/365\<close> and again by \<open>365\<close>;
  over the reals that is the difference itself.\<close>

lemma theta_over_reals:
  assumes "1 / 365 < T" "1 \<le> n" "S \<noteq> 0" "sigma \<noteq> 0" "sigma \<noteq> 1 / 100" "sigma \<noteq> - (1 / 100)"
  shows "\<exists>delta gamma vega theta rho V_T_down V_current.
           calculate_greeks S K T r sigma n ot = Inr (delta, gamma, vega, theta, rho)
         \<and> binomial_tree S K (T - 1 / 365) r sigma n ot = Inr V_T_down
         \<and> binomial_tree S K T r sigma n ot = Inr V_current
         \<and> theta = (V_T_down - V_current) / (1 / 365) / 365
         \<and> theta = V_T_down - V_current"
proof -
  from calculate_greeks_returns[OF assms(2,1,3-6)] obtain g where
    g: "calculate_greeks S K T r sigma n ot = Inr g" by blast
  from calculate_greeks_values[OF g] obtain V_T_down V_current delta gamma vega rho where
    "binomial_tree S K (T - 1 / 365) r sigma n ot = Inr V_T_down"
    "binomial_tree S K T r sigma n ot = Inr V_current"
    "g = (delta, gamma, vega, (V_T_down - V_current) / (1 / 365) / 365, rho)"
    by metis
  moreover have "(V_T_down - V_current) / (1 / 365) / 365 = V_T_down - V_current" by simp
  ultimately show ?thesis using g by metis
qed

text \<open>Delta is the difference of the two prices divided by \<open>1.01 S - 0.99 S\<close>; over the
  reals that is \<open>0.02 S\<close>.\<close>

lemma delta_over_reals:
  assumes "1 / 365 < T" "1 \<le> n" "S \<noteq> 0" "sigma \<noteq> 0" "sigma \<noteq> 1 / 100" "sigma \<noteq> - (1 / 100)"
  shows "\<exists>delta gamma vega theta rho V_up V_down.
           calculate_greeks S K T r sigma n ot = Inr (delta, gamma, vega, theta, rho)
         \<and> binomial_tree (101 / 100 * S) K T r sigma n ot = Inr V_up
         \<and> binomial_tree (99 / 100 * S) K T r sigma n ot = Inr V_down
         \<and> delta = (V_up - V_down) / (2 / 100 * S)"
proof -
  from calculate_greeks_returns[OF assms(2,1,3-6)] obtain g where
    g: "calculate_greeks S K T r sigma n ot = Inr g" by blast
  from calculate_greeks_values[OF g] obtain V_up V_down gamma vega theta rho where
    "binomial_tree (S * (101 / 100)) K T r sigma n ot = Inr V_up"
    "binomial_tree (S * (99 / 100)) K T r sigma n ot = Inr V_down"
    "g = ((V_up - V_down) / (S * (101 / 100) - S * (99 / 100)), gamma, vega, theta, rho)"
    by metis
  moreover have "S * (101 / 100) - S * (99 / 100) = 2 / 100 * S" by simp
  moreover have "S * (101 / 100) = 101 / 100 * S" "S * (99 / 100) = 99 / 100 * S" by simp_all
  ultimately show ?thesis using g by metis
qed

section \<open>The claims\<close>

subsection \<open>C1: the pricer computes the backward induction of the specification\<close>

text \<open>
  Claim C1. For every input with \<open>S \<ge> 0\<close>, \<open>K \<ge> 0\<close>, \<open>\<sigma> > 0\<close>, \<open>T > 0\<close>, an integer
  \<open>n \<ge> 1\<close> and a risk-neutral probability in \<open>[0, 1]\<close>, \<open>binomial_tree\<close> returns, and
  what it returns is the value at node \<open>(0, 0)\<close> of the backward induction the
  specification describes (\<open>spec_price\<close>): terminal payoffs at depth \<open>n\<close>, and at every
  node above the larger of the discounted expectation of its two children and the payoff
  of immediate exercise at that node's stock price. The loops of the source overwrite
  one list in place; the theorem says that this computes the same number as the
  recursion over the nodes.
\<close>

theorem binomial_tree_is_backward_induction:
  assumes "0 \<le> S" "0 \<le> K" "0 < sigma" "0 < T" "1 \<le> n"
    and "0 \<le> risk_neutral_p T r sigma n" "risk_neutral_p T r sigma n \<le> 1"
  shows "binomial_tree S K T r sigma n ''call'' = Inr (spec_price S K T r sigma n Call)
       \<and> binomial_tree S K T r sigma n ''put'' = Inr (spec_price S K T r sigma n Put)"
proof -
  have "sigma \<noteq> 0" using assms(3) by simp
  then show ?thesis
    using binomial_tree_spec_price[OF assms(5,4)] by (simp add: variant_of_def)
qed

text \<open>The hypotheses hold, and the theorem applies, at the scenario of the specification.\<close>

theorem binomial_tree_is_backward_induction_witness:
  "0 \<le> risk_neutral_p 1 (1 / 20) (1 / 5) 100 \<and> risk_neutral_p 1 (1 / 20) (1 / 5) 100 \<le> 1
   \<and> binomial_tree 100 100 1 (1 / 20) (1 / 5) 100 ''call''
       = Inr (spec_price 100 100 1 (1 / 20) (1 / 5) 100 Call)
   \<and> binomial_tree 100 100 1 (1 / 20) (1 / 5) 100 ''put''
       = Inr (spec_price 100 100 1 (1 / 20) (1 / 5) 100 Put)"
proof -
  have p: "0 \<le> risk_neutral_p 1 (1 / 20) (1 / 5) 100" "risk_neutral_p 1 (1 / 20) (1 / 5) 100 \<le> 1"
    by (rule risk_neutral_p_stable; simp)+
  show ?thesis
    using binomial_tree_is_backward_induction[of 100 100 "1 / 5" 1 100 "1 / 20"] p by simp
qed

subsection \<open>C2: the pricer invocations of the sensitivity estimator\<close>

text \<open>
  Claim C2, as amended. On every input on which \<open>calculate_greeks\<close> returns (\<open>n \<ge> 1\<close>,
  \<open>T > 1/365\<close>, \<open>S \<noteq> 0\<close>, \<open>\<sigma>\<close> none of \<open>0\<close>, \<open>0.01\<close>, \<open>-0.01\<close>) it invokes the pricer
  exactly ten times, in this order: twice for delta (spot \<open>1.01 S\<close> and \<open>0.99 S\<close>), twice
  more for gamma (spot \<open>1.01\<^sup>2 S\<close> and \<open>0.99\<^sup>2 S\<close>, reusing the two results of delta), twice
  for vega (\<open>\<sigma> + 0.01\<close>, \<open>\<sigma> - 0.01\<close>), twice for theta (the unperturbed inputs, then
  \<open>T - 1/365\<close>) and twice for rho (\<open>r + 0.01\<close>, \<open>r - 0.01\<close>). Nine of the ten invocations have
  perturbed inputs; the tenth recomputes the base price.
\<close>

theorem greeks_invocations:
  assumes "1 \<le> n" "1 / 365 < T" "S \<noteq> 0" "sigma \<noteq> 0" "sigma \<noteq> 1 / 100" "sigma \<noteq> - (1 / 100)"
  shows "\<exists>g. calculate_greeks_traced S K T r sigma n ot [] =
          ([(S * (101 / 100), K, T, r, sigma, n, ot),
            (S * (99 / 100), K, T, r, sigma, n, ot),
            (S * (101 / 100) * (101 / 100), K, T, r, sigma, n, ot),
            (S * (99 / 100) * (99 / 100), K, T, r, sigma, n, ot),
            (S, K, T, r, sigma + 1 / 100, n, ot),
            (S, K, T, r, sigma - 1 / 100, n, ot),
            (S, K, T, r, sigma, n, ot),
            (S, K, T - 1 / 365, r, sigma, n, ot),
            (S, K, T, r + 1 / 100, sigma, n, ot),
            (S, K, T, r - 1 / 100, sigma, n, ot)], Inr g)
       \<and> length (fst (calculate_greeks_traced S K T r sigma n ot [])) = 10
       \<and> length (filter (\<lambda>c. c \<noteq> (S, K, T, r, sigma, n, ot))
                   (fst (calculate_greeks_traced S K T r sigma n ot []))) = 9"
proof -
  from calculate_greeks_traced_returns[OF assms] obtain calls g where
    run: "calculate_greeks_traced S K T r sigma n ot [] = (calls, Inr g)" by blast
  have calls: "fst (calculate_greeks_traced S K T r sigma n ot []) = calls"
    using run by simp
  show ?thesis
  proof (intro conjI exI[of _ g])
    show "calculate_greeks_traced S K T r sigma n ot [] =
          ([(S * (101 / 100), K, T, r, sigma, n, ot),
            (S * (99 / 100), K, T, r, sigma, n, ot),
            (S * (101 / 100) * (101 / 100), K, T, r, sigma, n, ot),
            (S * (99 / 100) * (99 / 100), K, T, r, sigma, n, ot),
            (S, K, T, r, sigma + 1 / 100, n, ot),
            (S, K, T, r, sigma - 1 / 100, n, ot),
            (S, K, T, r, sigma, n, ot),
            (S, K, T - 1 / 365, r, sigma, n, ot),
            (S, K, T, r + 1 / 100, sigma, n, ot),
            (S, K, T, r - 1 / 100, sigma, n, ot)], Inr g)"
      using calculate_greeks_trace(1)[OF run] run by (simp only:)
    show "length (fst (calculate_greeks_traced S K T r sigma n ot [])) = 10"
      unfolding calls by (rule calculate_greeks_trace_counts(1)[OF run])
    show "length (filter (\<lambda>c. c \<noteq> (S, K, T, r, sigma, n, ot))
                   (fst (calculate_greeks_traced S K T r sigma n ot []))) = 9"
      unfolding calls by (rule calculate_greeks_trace_counts(2)[OF run])
  qed
qed

theorem greeks_invocations_witness:
  "\<exists>g. calculate_greeks_traced 100 100 1 (1 / 20) (1 / 5) 100 ''call'' [] =
          ([(100 * (101 / 100), 100, 1, 1 / 20, 1 / 5, 100, ''call''),
            (100 * (99 / 100), 100, 1, 1 / 20, 1 / 5, 100, ''call''),
            (100 * (101 / 100) * (101 / 100), 100, 1, 1 / 20, 1 / 5, 100, ''call''),
            (100 * (99 / 100) * (99 / 100), 100, 1, 1 / 20, 1 / 5, 100, ''call''),
            (100, 100, 1, 1 / 20, 1 / 5 + 1 / 100, 100, ''call''),
            (100, 100, 1, 1 / 20, 1 / 5 - 1 / 100, 100, ''call''),
            (100, 100, 1, 1 / 20, 1 / 5, 100, ''call''),
            (100, 100, 1 - 1 / 365, 1 / 20, 1 / 5, 100, ''call''),
            (100, 100, 1, 1 / 20 + 1 / 100, 1 / 5, 100, ''call''),
            (100, 100, 1, 1 / 20 - 1 / 100, 1 / 5, 100, ''call'')], Inr g)
       \<and> length (fst (calculate_greeks_traced 100 100 1 (1 / 20) (1 / 5) 100 ''call'' [])) = 10
       \<and> length (filter (\<lambda>c. c \<noteq> (100, 100, 1, 1 / 20, 1 / 5, 100, ''call''))
                   (fst (calculate_greeks_traced 100 100 1 (1 / 20) (1 / 5) 100 ''call'' []))) = 9"
  by (rule greeks_invocations) simp_all

text \<open>
  Claim C2 as stated, with eight invocations beyond the base price, fails: at the
  scenario of the specification the estimator returns, and it has made nine invocations
  besides the one of the base price, whether the base price is taken to be one of its
  ten invocations or the invocation with the unperturbed inputs.
\<close>

theorem eight_invocations_refuted:
  "\<not> isl (calculate_greeks 100 100 1 (1 / 20) (1 / 5) 100 ''call'')
   \<and> length (fst (calculate_greeks_traced 100 100 1 (1 / 20) (1 / 5) 100 ''call'' [])) - 1 \<noteq> 8
   \<and> length (filter (\<lambda>c. c \<noteq> (100, 100, 1, 1 / 20, 1 / 5, 100, ''call''))
        (fst (calculate_greeks_traced 100 100 1 (1 / 20) (1 / 5) 100 ''call'' []))) \<noteq> 8"
proof -
  obtain calls g where
    run: "calculate_greeks_traced 100 100 1 (1 / 20) (1 / 5) 100 ''call'' [] = (calls, Inr g)"
    using calculate_greeks_traced_returns[of 100 1 100 "1 / 5" 100 "1 / 20" "''call''"] by auto
  show ?thesis
    using calculate_greeks_trace_counts[OF run] run by (simp add: calculate_greeks_def)
qed

subsection \<open>C4: which inputs the pricer rejects\<close>

text \<open>
  Claim C4, as amended. \<open>binomial_tree\<close> raises on every input with \<open>n < 1\<close> or \<open>T \<le> 0\<close> or
  \<open>\<sigma> = 0\<close>: these inputs make the division by \<open>n\<close>, the square root of the time step or
  the division by \<open>u - d\<close> fail, or leave the list of option values empty. A negative
  \<open>S\<close>, \<open>K\<close> or \<open>\<sigma>\<close> is not rejected.
\<close>

theorem price_rejects:
  assumes "n < 1 \<or> T \<le> 0 \<or> sigma = 0"
  shows "isl (binomial_tree S K T r sigma n ot)"
  using assms by (rule binomial_tree_fails)

theorem price_rejects_witness:
  "isl (binomial_tree 100 100 1 (1 / 20) (1 / 5) 0 ''call'')
   \<and> isl (binomial_tree 100 100 1 (1 / 20) (1 / 5) (- 3) ''call'')
   \<and> isl (binomial_tree 100 100 0 (1 / 20) (1 / 5) 100 ''call'')
   \<and> isl (binomial_tree 100 100 (- 1) (1 / 20) (1 / 5) 100 ''call'')
   \<and> isl (binomial_tree 100 100 1 (1 / 20) 0 100 ''call'')"
  using price_rejects[of 0 1 "1 / 5" 100 100 "1 / 20" "''call''"]
    price_rejects[of "- 3" 1 "1 / 5" 100 100 "1 / 20" "''call''"]
    price_rejects[of 100 0 "1 / 5" 100 100 "1 / 20" "''call''"]
    price_rejects[of 100 "- 1" "1 / 5" 100 100 "1 / 20" "''call''"]
    price_rejects[of 100 1 0 100 100 "1 / 20" "''call''"]
  by simp

text \<open>
  Claim C4 as stated fails for the negative inputs: with spot \<open>-1\<close> the one-step call is
  priced at \<open>0\<close>, and a negative strike or a negative volatility is priced as well.
\<close>

theorem negative_spot_is_priced:
  "binomial_tree (- 1) 1 1 0 1 1 ''call'' = Inr 0
   \<and> \<not> isl (binomial_tree 1 (- 1) 1 0 1 1 ''call'')
   \<and> \<not> isl (binomial_tree 1 1 1 0 (- 1) 1 ''call'')"
proof -
  have "- 1 \<le> exp (1::real)"
    by (rule order_trans[of _ 0]) simp_all
  moreover have "- 1 \<le> 1 / exp (1::real)"
    by (rule order_trans[of _ 0]) simp_all
  ultimately have "binomial_tree (- 1) 1 1 0 1 1 ''call'' = Inr 0"
    by (simp add: one_step_price exercise_payoff_def variant_of_def max_def)
  then show ?thesis by (simp add: binomial_tree_isl_iff)
qed

subsection \<open>C6: option values never become negative\<close>

text \<open>
  Claim C6. For every input with \<open>S \<ge> 0\<close>, \<open>K \<ge> 0\<close>, \<open>\<sigma> > 0\<close>, \<open>T > 0\<close>, \<open>n \<ge> 1\<close> and a
  risk-neutral probability in \<open>[0, 1]\<close>, the price returned is a number that is not
  negative, and so is every entry of the list of option values at every moment of the
  backward pass: after the depths \<open>n - 1, \<dots>, i + 1\<close> and the first \<open>k\<close> nodes of depth
  \<open>i\<close>, for every \<open>i < n\<close> and \<open>k \<le> i + 1\<close>. The exercise payoff compared at an interior
  node is not floored at zero, but the discounted expectation it is compared with is
  not negative.
\<close>

theorem backward_pass_nonnegative:
  assumes "0 \<le> S" "0 \<le> K" "0 < sigma" "0 < T" "1 \<le> n"
    and "0 \<le> risk_neutral_p T r sigma n" "risk_neutral_p T r sigma n \<le> 1"
  shows "(\<exists>x. binomial_tree S K T r sigma n ot = Inr x \<and> 0 \<le> x)
       \<and> (\<forall>i k. i < nat n \<longrightarrow> k \<le> Suc i \<longrightarrow>
            (\<exists>vs. backward_state S K T r sigma n ot i k = Inr vs \<and> list_all (\<lambda>x. 0 \<le> x) vs))"
proof -
  have s: "sigma \<noteq> 0" using assms(3) by simp
  have states: "\<exists>vs. backward_state S K T r sigma n ot i k = Inr vs \<and> length vs = nat n + 1
       \<and> list_all (\<lambda>x. 0 \<le> x) vs" if "i < nat n" "k \<le> Suc i" for i k
    using backward_state_Inr[OF assms(5,4) s that, of S K r ot]
      backward_state_nonneg[OF assms(5,4) s assms(6,7)] by blast
  have "0 < nat n" using assms(5) by simp
  from states[OF this, of 1] obtain vs where
    vs: "backward_state S K T r sigma n ot 0 1 = Inr vs" "length vs = nat n + 1"
      "list_all (\<lambda>x. 0 \<le> x) vs"
    by auto
  then have "vs \<noteq> []" by auto
  then have "binomial_tree S K T r sigma n ot = Inr (vs ! 0)"
    using vs(1) by (simp add: binomial_tree_final_state[OF assms(5)] first_value_nth)
  moreover have "0 \<le> vs ! 0" using vs(2,3) by (simp add: list_all_length)
  ultimately show ?thesis using states by blast
qed

theorem backward_pass_nonnegative_witness:
  "0 \<le> risk_neutral_p 1 (1 / 20) (1 / 5) 100 \<and> risk_neutral_p 1 (1 / 20) (1 / 5) 100 \<le> 1
   \<and> (\<exists>x. binomial_tree 100 100 1 (1 / 20) (1 / 5) 100 ''put'' = Inr x \<and> 0 \<le> x)
   \<and> (\<exists>vs. backward_state 100 100 1 (1 / 20) (1 / 5) 100 ''put'' 40 7 = Inr vs
          \<and> list_all (\<lambda>x. 0 \<le> x) vs)"
proof -
  have p: "0 \<le> risk_neutral_p 1 (1 / 20) (1 / 5) 100" "risk_neutral_p 1 (1 / 20) (1 / 5) 100 \<le> 1"
    by (rule risk_neutral_p_stable; simp)+
  have "(\<exists>x. binomial_tree 100 100 1 (1 / 20) (1 / 5) 100 ''put'' = Inr x \<and> 0 \<le> x)
       \<and> (\<forall>i k. i < nat 100 \<longrightarrow> k \<le> Suc i \<longrightarrow>
            (\<exists>vs. backward_state 100 100 1 (1 / 20) (1 / 5) 100 ''put'' i k = Inr vs
               \<and> list_all (\<lambda>x. 0 \<le> x) vs))"
    by (rule backward_pass_nonnegative) (use p in simp_all)
  then show ?thesis using p by simp
qed

subsection \<open>C8: monotonicity in the spot\<close>

text \<open>
  Claim C8, as amended. With \<open>K\<close>, \<open>T\<close>, \<open>r\<close>, \<open>\<sigma>\<close>, \<open>n\<close> fixed at values where the price is
  defined and where the risk-neutral probability lies in \<open>[0, 1]\<close>, the price is
  non-decreasing in the spot for the call and non-increasing in the spot for the put.
\<close>

theorem price_monotone_in_spot:
  assumes "S1 \<le> S2" "1 \<le> n" "0 < T" "sigma \<noteq> 0"
    and "0 \<le> risk_neutral_p T r sigma n" "risk_neutral_p T r sigma n \<le> 1"
  shows "\<exists>c1 c2 q1 q2.
           binomial_tree S1 K T r sigma n ''call'' = Inr c1
         \<and> binomial_tree S2 K T r sigma n ''call'' = Inr c2 \<and> c1 \<le> c2
         \<and> binomial_tree S1 K T r sigma n ''put'' = Inr q1
         \<and> binomial_tree S2 K T r sigma n ''put'' = Inr q2 \<and> q2 \<le> q1"
proof -
  let ?L = "spec_lattice T r sigma n"
  have p: "0 \<le> p ?L" "p ?L \<le> 1" using assms(5,6) by (simp_all add: spec_lattice_def)
  note mono = spec_node_mono_call[OF p spec_lattice_factors_pos assms(1)]
    and anti = spec_node_antimono_put[OF p spec_lattice_factors_pos assms(1)]
  show ?thesis
    using mono[of K r "nat n" 0 0] anti[of K r "nat n" 0 0]
    by (simp add: binomial_tree_spec_price[OF assms(2-4)] variant_of_def spec_price_def)
qed

theorem price_monotone_in_spot_witness:
  "0 \<le> risk_neutral_p 1 (1 / 20) (1 / 5) 100 \<and> risk_neutral_p 1 (1 / 20) (1 / 5) 100 \<le> 1
   \<and> (\<exists>c1 c2 q1 q2.
           binomial_tree 95 100 1 (1 / 20) (1 / 5) 100 ''call'' = Inr c1
         \<and> binomial_tree 105 100 1 (1 / 20) (1 / 5) 100 ''call'' = Inr c2 \<and> c1 \<le> c2
         \<and> binomial_tree 95 100 1 (1 / 20) (1 / 5) 100 ''put'' = Inr q1
         \<and> binomial_tree 105 100 1 (1 / 20) (1 / 5) 100 ''put'' = Inr q2 \<and> q2 \<le> q1)"
proof -
  have p: "0 \<le> risk_neutral_p 1 (1 / 20) (1 / 5) 100" "risk_neutral_p 1 (1 / 20) (1 / 5) 100 \<le> 1"
    by (rule risk_neutral_p_stable; simp)+
  show ?thesis
    using price_monotone_in_spot[of 95 105 100 1 "1 / 5" "1 / 20" 100] p by simp
qed

text \<open>
  Claim C8 as stated, for all values where the price is defined, fails when the
  probability leaves \<open>[0, 1]\<close>. With one step, \<open>\<sigma> = 1\<close>, \<open>T = 1\<close>, \<open>K = 1\<close>: at the rate
  \<open>r = 2\<close> the put is worth more at spot \<open>2\<close> than at spot \<open>1.5\<close>, and at the rate \<open>r = -2\<close> the
  call is worth less at spot \<open>0.6\<close> than at spot \<open>0.5\<close>.
\<close>

theorem price_not_monotone_when_unstable:
  "\<not> isl (binomial_tree (3 / 2) 1 1 2 1 1 ''put'') \<and> \<not> isl (binomial_tree 2 1 1 2 1 1 ''put'')
   \<and> projr (binomial_tree (3 / 2) 1 1 2 1 1 ''put'') < projr (binomial_tree 2 1 1 2 1 1 ''put'')
   \<and> \<not> isl (binomial_tree (1 / 2) 1 1 (- 2) 1 1 ''call'')
   \<and> \<not> isl (binomial_tree (3 / 5) 1 1 (- 2) 1 1 ''call'')
   \<and> projr (binomial_tree (3 / 5) 1 1 (- 2) 1 1 ''call'')
       < projr (binomial_tree (1 / 2) 1 1 (- 2) 1 1 ''call'')"
proof -
  define E where "E = exp (1::real)"
  have E: "2 \<le> E" "E \<le> 3" using exp_one_bounds by (simp_all add: E_def)
  have D: "0 < E * (E + 1)" "0 < E + 1" using E by simp_all
  have sq: "2 * E \<le> E * E" using E by (intro mult_right_mono) simp_all
  have put1: "binomial_tree (3 / 2) 1 1 2 1 1 ''put''
      = Inr (max ((3 / 2 - E) / (E * (E + 1))) (1 - 3 / 2))"
    unfolding E_def using exp_one_bounds by (intro put_price_high_rate) simp_all
  have put2: "binomial_tree 2 1 1 2 1 1 ''put'' = Inr (max ((2 - E) / (E * (E + 1))) (1 - 2))"
    unfolding E_def using exp_one_bounds by (intro put_price_high_rate) simp_all
  have "(3 / 2 - E) / (E * (E + 1)) < (2 - E) / (E * (E + 1))"
    using D(1) by (intro divide_strict_right_mono) simp_all
  moreover have "1 - 3 / 2 < (2 - E) / (E * (E + 1))"
    using D(1) sq by (simp add: field_simps)
  ultimately have put: "max ((3 / 2 - E) / (E * (E + 1))) (1 - 3 / 2)
      < max ((2 - E) / (E * (E + 1))) (1 - 2)"
    by (simp add: less_max_iff_disj)
  have call1: "binomial_tree (1 / 2) 1 1 (- 2) 1 1 ''call''
      = Inr (max (- (E * (1 / 2 * E - 1)) / (E + 1)) (1 / 2 - 1))"
    unfolding E_def using exp_one_bounds by (intro call_price_negative_rate) simp_all
  have call2: "binomial_tree (3 / 5) 1 1 (- 2) 1 1 ''call''
      = Inr (max (- (E * (3 / 5 * E - 1)) / (E + 1)) (3 / 5 - 1))"
    unfolding E_def using exp_one_bounds by (intro call_price_negative_rate) simp_all
  have "E * (1 / 2 * E - 1) < E * (3 / 5 * E - 1)"
    using E by (intro mult_strict_left_mono) simp_all
  then have "- (E * (3 / 5 * E - 1)) / (E + 1) < - (E * (1 / 2 * E - 1)) / (E + 1)"
    using D(2) by (intro divide_strict_right_mono) simp_all
  moreover have "(E - 3) * (E + 1 / 5) \<le> 0"
    using E by (intro mult_nonpos_nonneg) simp_all
  then have "3 / 5 - 1 < - (E * (1 / 2 * E - 1)) / (E + 1)"
    using D(2) by (simp add: field_simps)
  ultimately have call: "max (- (E * (3 / 5 * E - 1)) / (E + 1)) (3 / 5 - 1)
      < max (- (E * (1 / 2 * E - 1)) / (E + 1)) (1 / 2 - 1)"
    by (simp add: less_max_iff_disj)
  show ?thesis
    unfolding put1 put2 call1 call2 using put call by simp
qed

subsection \<open>C9: the estimator fails within one day of expiry\<close>

text \<open>
  Claim C9. For every input with \<open>0 < T \<le> 1/365\<close>, \<open>\<sigma> > 0\<close> and \<open>n \<ge> 1\<close> the estimator
  raises, although the pricer returns on the same input: the pricer call that theta
  needs, with time to expiry \<open>T - 1/365\<close>, divides by zero when \<open>T = 1/365\<close> and takes the
  square root of a negative time step when \<open>T < 1/365\<close>.
\<close>

theorem greeks_fails_within_one_day:
  assumes "0 < T" "T \<le> 1 / 365" "0 < sigma" "1 \<le> n"
  shows "isl (calculate_greeks S K T r sigma n ot)
       \<and> \<not> isl (binomial_tree S K T r sigma n ot)
       \<and> (T = 1 / 365 \<longrightarrow> binomial_tree S K (T - 1 / 365) r sigma n ot = Inl ZeroDivisionError)
       \<and> (T < 1 / 365 \<longrightarrow> binomial_tree S K (T - 1 / 365) r sigma n ot = Inl ValueError)"
proof (intro conjI impI)
  show "isl (calculate_greeks S K T r sigma n ot)"
    using assms(2) by (simp add: calculate_greeks_isl_iff)
  show "\<not> isl (binomial_tree S K T r sigma n ot)"
    using assms by (simp add: binomial_tree_isl_iff)
  show "binomial_tree S K (T - 1 / 365) r sigma n ot = Inl ZeroDivisionError" if "T = 1 / 365"
    unfolding that using assms(4) binomial_tree_zero_expiry[of n S K r sigma ot] by simp
  show "binomial_tree S K (T - 1 / 365) r sigma n ot = Inl ValueError" if "T < 1 / 365"
    using that assms(4) binomial_tree_negative_step[of "T - 1 / 365" n S K r sigma ot] by simp
qed

theorem greeks_fails_within_one_day_witness:
  "isl (calculate_greeks 100 100 (1 / 365) (1 / 20) (1 / 5) 100 ''call'')
   \<and> \<not> isl (binomial_tree 100 100 (1 / 365) (1 / 20) (1 / 5) 100 ''call'')
   \<and> binomial_tree 100 100 (1 / 365 - 1 / 365) (1 / 20) (1 / 5) 100 ''call''
       = Inl ZeroDivisionError
   \<and> isl (calculate_greeks 100 100 (1 / 730) (1 / 20) (1 / 5) 100 ''call'')
   \<and> \<not> isl (binomial_tree 100 100 (1 / 730) (1 / 20) (1 / 5) 100 ''call'')
   \<and> binomial_tree 100 100 (1 / 730 - 1 / 365) (1 / 20) (1 / 5) 100 ''call'' = Inl ValueError"
  using greeks_fails_within_one_day[of "1 / 365" "1 / 5" 100 100 100 "1 / 20" "''call''"]
    greeks_fails_within_one_day[of "1 / 730" "1 / 5" 100 100 100 "1 / 20" "''call''"]
  by simp

subsection \<open>C10: the variant is not validated\<close>



end
